theory Spec2Isabelle
  imports Main "HOL-Library.Word"
begin

section \<open>The connection orchestrator of \<open>src/axios.ts\<close>\<close>

text \<open>
  \<open>nodeEventSource\<close> returns a promise and runs \<open>create\<close>, an async function that is
  suspended at three \<open>await\<close>s (the axios call, the open hook, the byte reader) and is
  resumed by the environment. The model is a step function: the state holds the local
  variables of the closure (\<open>headers\<close>, \<open>retryInterval\<close>, \<open>retryTimer\<close>,
  \<open>curRequestController\<close>), the promise and the control point of \<open>create\<close>; an event
  is what the environment does next (the transport answers, the decoder calls a sink, the
  timer fires, the caller's signal aborts). An event that cannot happen at the current
  control point leaves the state as it is.
\<close>

subsection \<open>Values\<close>

definition EventStreamContentType :: string where
  "EventStreamContentType = ''text/event-stream''"

definition DefaultRetryInterval :: int where
  "DefaultRetryInterval = 1000"

definition LastEventId :: string where
  "LastEventId = ''last-event-id''"

datatype NodeEventSourceErrorType = Request | Other

text \<open>
  A thrown value: an \<open>AxiosError\<close>, any other error, or the \<open>NodeEventSourceError\<close>
  object \<open>{type, origin}\<close> that the catch block builds.
\<close>

datatype thrown =
    AxiosError string
  | PlainError string
  | NodeEventSourceError NodeEventSourceErrorType thrown

text \<open>\<open>Record<string, string>\<close>: a header object.\<close>

type_synonym header_map = "string \<rightharpoonup> string"

record AxiosResponse =
  status :: nat
  response_headers :: header_map

text \<open>
  Modelled from the spec: the type \<open>EventSourceMessage\<close> is declared in \<open>./parse\<close>, which
  is not among the sources; the fields are those of the spec's event message. The
  orchestrator only passes messages on.
\<close>

record EventSourceMessage =
  msg_id :: "string option"
  msg_event :: "string option"
  msg_data :: string
  msg_retry :: "int option"

text \<open>
  The caller's hooks are arbitrary functions of the caller: each one sees the calls made to
  the hooks so far and its argument. A hook of type \<open>void\<close> returns normally (\<open>None\<close>) or
  throws; \<open>onError\<close> returns \<open>boolean | void\<close> (\<open>Returns None\<close> is \<open>undefined\<close>) or throws.
  A hook runs the caller's code, which may hold the controller of the signal it gave and
  abort it. The listener of the signal then runs at once, inside the call of the hook. For
  \<open>onError\<close> this is part of what the hook yields, since the catch block goes on after the
  call: the first component says whether the signal fires its abort event while the policy
  runs. For the other three hooks nothing of \<open>create\<close> lies between the call and the
  listener, and the event \<open>Abort\<close> just before the event of the hook gives the same state.
\<close>

datatype hook_call =
    OnOpen AxiosResponse
  | OnMessage EventSourceMessage
  | OnClose
  | OnError thrown

datatype verdict = Returns "bool option" | Throws thrown

type_synonym addr = nat

text \<open>
  The object store: \<open>objs\<close> gives the header object at an address, the addresses below
  \<open>next_addr\<close> are the allocated ones.
\<close>

record store =
  objs :: "addr \<Rightarrow> header_map"
  next_addr :: addr

text \<open>
  \<open>NodeEventSourceRequestConfig\<close>, without the options that are passed through to axios.
  \<open>inputHeaders\<close> is a reference to the caller's object; \<open>inputSignal\<close> says whether a
  signal was given.
\<close>

record NodeEventSourceRequestConfig =
  cfg_retryInterval :: "int option"
  inputSignal :: bool
  inputHeaders :: "addr option"
  onOpen :: "(hook_call list \<Rightarrow> AxiosResponse \<Rightarrow> thrown option) option"
  onMessage :: "(hook_call list \<Rightarrow> EventSourceMessage \<Rightarrow> thrown option) option"
  onClose :: "(hook_call list \<Rightarrow> thrown option) option"
  onError :: "(hook_call list \<Rightarrow> thrown \<Rightarrow> bool \<times> verdict) option"

datatype promise = Pending | Resolved | Rejected thrown

text \<open>
  Where \<open>create\<close> is suspended: at \<open>await axios(...)\<close>, at \<open>await onOpen(response)\<close> (with
  the outcome the hook will settle with), at \<open>await getBytes(...)\<close>, or not at all.
\<close>

datatype phase = Connecting | Opening "thrown option" | Streaming | Ended

text \<open>
  \<open>retryTimer\<close> is the pending timeout with its delay, \<open>aborted\<close> is
  \<open>curRequestController.signal.aborted\<close>. Three fields only record what happened:
  \<open>trace\<close> the calls to the caller's hooks, \<open>requests\<close> the headers of each axios call,
  \<open>timers\<close> the delay of each \<open>setTimeout\<close>.
\<close>

record state =
  heap :: store
  headers :: addr
  retryInterval :: int
  retryTimer :: "int option"
  aborted :: bool
  promise :: promise
  phase :: phase
  trace :: "hook_call list"
  requests :: "header_map list"
  timers :: "int list"

text \<open>
  The events. \<open>Abort\<close>: the caller's signal fires its abort event. \<open>AxiosReject\<close>,
  \<open>AxiosResponds\<close>: the awaited axios call throws or returns. \<open>OnOpenSettled\<close>: the awaited
  open hook settles. \<open>IdSink\<close>, \<open>RetrySink\<close>, \<open>MessageSink\<close>: the decoder of \<open>./parse\<close>,
  which is not among the sources, calls one of the three sinks it was given; the message
  sink is the caller's \<open>onMessage\<close>, when there is one, and what it throws leaves
  \<open>getBytes\<close> as the fault of the stream (the spec: it is not caught on the way).
  \<open>StreamFault\<close>, \<open>StreamEnd\<close>:
  the awaited \<open>getBytes\<close> throws or returns. \<open>TimerFires\<close>: the retry timer runs
  \<open>create\<close>.
\<close>

datatype event =
    Abort
  | AxiosReject thrown
  | AxiosResponds AxiosResponse
  | OnOpenSettled
  | IdSink "string option"
  | RetrySink int
  | MessageSink EventSourceMessage
  | StreamFault thrown
  | StreamEnd
  | TimerFires

subsection \<open>Operations\<close>

text \<open>JavaScript truthiness of a property that is a string or absent.\<close>

definition truthy :: "string option \<Rightarrow> bool" where
  "truthy v = (case v of None \<Rightarrow> False | Some x \<Rightarrow> x \<noteq> [])"

definition startsWith :: "string \<Rightarrow> string \<Rightarrow> bool" where
  "startsWith x p = (take (length p) x = p)"

definition hdrs :: "state \<Rightarrow> header_map" where
  "hdrs s = objs (heap s) (headers s)"

definition set_hdrs :: "header_map \<Rightarrow> state \<Rightarrow> state" where
  "set_hdrs m s = s\<lparr>heap := (heap s)\<lparr>objs := (objs (heap s))(headers s := m)\<rparr>\<rparr>"

definition defaultOnOpen :: "AxiosResponse \<Rightarrow> thrown option" where
  "defaultOnOpen response =
     (let contentType = response_headers response ''Content-Type'' in
      if \<not> (case contentType of None \<Rightarrow> False
             | Some c \<Rightarrow> startsWith c EventStreamContentType)
      then Some (PlainError (''Expected content-type to be '' @ EventStreamContentType
                   @ '', Actual: ''
                   @ (case contentType of None \<Rightarrow> ''undefined'' | Some c \<Rightarrow> c)))
      else None)"

definition dispose :: "state \<Rightarrow> state" where
  "dispose s = s\<lparr>retryTimer := None, aborted := True\<rparr>"

definition resolve :: "state \<Rightarrow> state" where
  "resolve s = (if promise s = Pending then s\<lparr>promise := Resolved\<rparr> else s)"

definition reject :: "thrown \<Rightarrow> state \<Rightarrow> state" where
  "reject v s = (if promise s = Pending then s\<lparr>promise := Rejected v\<rparr> else s)"

text \<open>
  The listener that \<open>nodeEventSource\<close> registers on the caller's signal, when there is
  one: \<open>dispose(); resolve();\<close>.
\<close>

definition listener :: "NodeEventSourceRequestConfig \<Rightarrow> state \<Rightarrow> state" where
  "listener cfg s = (if inputSignal cfg then resolve (dispose s) else s)"

text \<open>The start of \<open>create\<close>: a fresh abort controller, and the axios call.\<close>

definition create :: "state \<Rightarrow> state" where
  "create s = s\<lparr>aborted := False, phase := Connecting, requests := requests s @ [hdrs s]\<rparr>"

definition classify :: "thrown \<Rightarrow> thrown" where
  "classify err =
     NodeEventSourceError (case err of AxiosError _ \<Rightarrow> Request | _ \<Rightarrow> Other) err"

text \<open>
  The catch block of \<open>create\<close>. Without a policy of the caller, \<open>onError\<close> is
  \<open>defaultOnError\<close>, which throws its argument. A policy of the caller is called first;
  when it aborts the caller's signal, the listener has run by the time it returns or
  throws, and the rest of the block works on that state.
\<close>

definition catch :: "NodeEventSourceRequestConfig \<Rightarrow> thrown \<Rightarrow> state \<Rightarrow> state" where
  "catch cfg err s0 =
     (let s = s0\<lparr>phase := Ended\<rparr> in
      if aborted s then s
      else (case onError cfg of
          None \<Rightarrow> reject (classify err) (dispose s)
        | Some f \<Rightarrow>
            (let s1 = s\<lparr>trace := trace s @ [OnError (classify err)]\<rparr> in
             case f (trace s) (classify err) of
               (fires, outcome) \<Rightarrow>
                 (let s2 = (if fires then listener cfg s1 else s1) in
                  case outcome of
                    Throws innerErr \<Rightarrow> reject innerErr (dispose s2)
                  | Returns shouldRetry \<Rightarrow>
                      (let s3 = s2\<lparr>retryTimer := None\<rparr> in
                       if shouldRetry = Some True
                       then s3\<lparr>retryTimer := Some (retryInterval s3),
                               timers := timers s3 @ [retryInterval s3]\<rparr>
                       else s3)))))"

text \<open>The two sinks that the orchestrator hands to \<open>getMessages\<close>.\<close>

definition id_sink :: "string option \<Rightarrow> state \<Rightarrow> state" where
  "id_sink i s =
     (if truthy i then set_hdrs ((hdrs s)(LastEventId := i)) s
      else set_hdrs ((hdrs s)(LastEventId := None)) s)"

definition retry_sink :: "int \<Rightarrow> state \<Rightarrow> state" where
  "retry_sink retry s = s\<lparr>retryInterval := retry\<rparr>"

fun step :: "NodeEventSourceRequestConfig \<Rightarrow> state \<Rightarrow> event \<Rightarrow> state" where
  "step cfg s Abort = listener cfg s"
| "step cfg s (AxiosReject err) = (if phase s = Connecting then catch cfg err s else s)"
| "step cfg s (AxiosResponds response) =
     (if phase s = Connecting then
        (case onOpen cfg of
           None \<Rightarrow> (case defaultOnOpen response of
                      Some err \<Rightarrow> catch cfg err s
                    | None \<Rightarrow> s\<lparr>phase := Opening None\<rparr>)
         | Some h \<Rightarrow> s\<lparr>phase := Opening (h (trace s) response),
                       trace := trace s @ [OnOpen response]\<rparr>)
      else s)"
| "step cfg s OnOpenSettled =
     (case phase s of
        Opening (Some err) \<Rightarrow> catch cfg err s
      | Opening None \<Rightarrow> s\<lparr>phase := Streaming\<rparr>
      | _ \<Rightarrow> s)"
| "step cfg s (IdSink i) = (if phase s = Streaming then id_sink i s else s)"
| "step cfg s (RetrySink retry) = (if phase s = Streaming then retry_sink retry s else s)"
| "step cfg s (MessageSink m) =
     (if phase s = Streaming then
        (case onMessage cfg of
           None \<Rightarrow> s
         | Some h \<Rightarrow>
             (let s1 = s\<lparr>trace := trace s @ [OnMessage m]\<rparr> in
              case h (trace s) m of None \<Rightarrow> s1 | Some err \<Rightarrow> catch cfg err s1))
      else s)"
| "step cfg s (StreamFault err) = (if phase s = Streaming then catch cfg err s else s)"
| "step cfg s StreamEnd =
     (if phase s = Streaming then
        (case onClose cfg of
           None \<Rightarrow> resolve (dispose (s\<lparr>phase := Ended\<rparr>))
         | Some h \<Rightarrow>
             (let s1 = s\<lparr>trace := trace s @ [OnClose]\<rparr> in
              case h (trace s) of
                None \<Rightarrow> resolve (dispose (s1\<lparr>phase := Ended\<rparr>))
              | Some err \<Rightarrow> catch cfg err s1))
      else s)"
| "step cfg s TimerFires =
     (case retryTimer s of
        Some delay \<Rightarrow> create (s\<lparr>retryTimer := None\<rparr>)
      | None \<Rightarrow> s)"

definition run :: "NodeEventSourceRequestConfig \<Rightarrow> state \<Rightarrow> event list \<Rightarrow> state" where
  "run cfg s es = foldl (step cfg) s es"

text \<open>
  The synchronous part of \<open>nodeEventSource\<close>: copy the caller's headers into a new
  object, default the \<open>accept\<close> header, and start the first attempt.
\<close>

definition nodeEventSource :: "NodeEventSourceRequestConfig \<Rightarrow> store \<Rightarrow> state" where
  "nodeEventSource cfg h =
     (let copy = (case inputHeaders cfg of None \<Rightarrow> Map.empty | Some a \<Rightarrow> objs h a);
          hs = (if \<not> truthy (copy ''accept'')
                then copy(''accept'' \<mapsto> EventStreamContentType) else copy)
      in create
           \<lparr>heap = \<lparr>objs = (objs h)(next_addr h := hs), next_addr = Suc (next_addr h)\<rparr>,
            headers = next_addr h,
            retryInterval = (case cfg_retryInterval cfg of
                               None \<Rightarrow> DefaultRetryInterval | Some n \<Rightarrow> n),
            retryTimer = None,
            aborted = False,
            promise = Pending,
            phase = Ended,
            trace = [],
            requests = [],
            timers = []\<rparr>)"

subsection \<open>Observations on states, events and hook calls\<close>

text \<open>
  Two invariants of the reachable states. Under every configuration, a rejected promise
  goes with an aborted controller, no pending timer and an attempt that has ended. Without
  a policy of the caller no timer is ever set, and a resolved promise goes with an aborted
  controller and no pending timer as well.
\<close>

definition rejected_inv :: "state \<Rightarrow> bool" where
  "rejected_inv s =
     (case promise s of
        Rejected v \<Rightarrow> aborted s \<and> retryTimer s = None \<and> phase s = Ended
      | _ \<Rightarrow> True)"

definition settled_inv :: "state \<Rightarrow> bool" where
  "settled_inv s =
     (case promise s of
        Pending \<Rightarrow> True
      | Resolved \<Rightarrow> aborted s \<and> retryTimer s = None
      | Rejected v \<Rightarrow> aborted s \<and> retryTimer s = None \<and> phase s = Ended)"

fun is_OnError :: "hook_call \<Rightarrow> bool" where
  "is_OnError (OnError e) = True"
| "is_OnError c = False"

fun is_IdSink :: "event \<Rightarrow> bool" where
  "is_IdSink (IdSink i) = True"
| "is_IdSink e = False"

fun is_RetrySink :: "event \<Rightarrow> bool" where
  "is_RetrySink (RetrySink n) = True"
| "is_RetrySink e = False"


text \<open>
  The value that an event throws into the try block of \<open>create\<close>, if any: the transport
  fault, the error of the default open validation, the rejection of the open hook, the
  fault of the stream, or what the message hook or the close hook throws.
\<close>

fun fault_of :: "NodeEventSourceRequestConfig \<Rightarrow> state \<Rightarrow> event \<Rightarrow> thrown option" where
  "fault_of cfg s (AxiosReject err) = (if phase s = Connecting then Some err else None)"
| "fault_of cfg s (AxiosResponds response) =
     (if phase s = Connecting \<and> onOpen cfg = None then defaultOnOpen response else None)"
| "fault_of cfg s OnOpenSettled = (case phase s of Opening res \<Rightarrow> res | _ \<Rightarrow> None)"
| "fault_of cfg s (MessageSink m) =
     (if phase s = Streaming
      then (case onMessage cfg of None \<Rightarrow> None | Some h \<Rightarrow> h (trace s) m) else None)"
| "fault_of cfg s (StreamFault err) = (if phase s = Streaming then Some err else None)"
| "fault_of cfg s StreamEnd =
     (if phase s = Streaming
      then (case onClose cfg of None \<Rightarrow> None | Some h \<Rightarrow> h (trace s)) else None)"
| "fault_of cfg s e = None"

subsection \<open>Example inputs\<close>

text \<open>
  A caller whose headers object lives at address 0, six configurations (no hooks at all;
  a policy that always retries, with a close hook; a policy that returns \<open>false\<close>; a
  close hook that throws, with a policy that always retries; a policy that aborts the
  caller's signal and then yields a given verdict; an open hook that accepts every response,
  with a close hook), and three responses. The third one has the header object as axios
  builds it from what Node delivers, with the names of the headers in lower case.
\<close>

definition caller_store :: store where
  "caller_store =
     \<lparr>objs = (\<lambda>a. Map.empty)(0 := [''authorization'' \<mapsto> ''token'']), next_addr = 1\<rparr>"

definition cfg_plain :: NodeEventSourceRequestConfig where
  "cfg_plain =
     \<lparr>cfg_retryInterval = None, inputSignal = True, inputHeaders = Some 0,
      onOpen = None, onMessage = None, onClose = None, onError = None\<rparr>"

definition cfg_retrying :: NodeEventSourceRequestConfig where
  "cfg_retrying =
     cfg_plain\<lparr>onClose := Some (\<lambda>t. None),
               onError := Some (\<lambda>t e. (False, Returns (Some True)))\<rparr>"

definition cfg_giving_up :: NodeEventSourceRequestConfig where
  "cfg_giving_up = cfg_plain\<lparr>onError := Some (\<lambda>t e. (False, Returns (Some False)))\<rparr>"

definition cfg_reconnecting :: NodeEventSourceRequestConfig where
  "cfg_reconnecting =
     cfg_plain\<lparr>onClose := Some (\<lambda>t. Some (PlainError ''closed'')),
               onError := Some (\<lambda>t e. (False, Returns (Some True)))\<rparr>"

definition cfg_cancelling :: "verdict \<Rightarrow> NodeEventSourceRequestConfig" where
  "cfg_cancelling v = cfg_plain\<lparr>onError := Some (\<lambda>t e. (True, v))\<rparr>"

definition cfg_closing :: NodeEventSourceRequestConfig where
  "cfg_closing = cfg_plain\<lparr>onOpen := Some (\<lambda>t r. None), onClose := Some (\<lambda>t. None)\<rparr>"

definition event_stream_response :: AxiosResponse where
  "event_stream_response =
     \<lparr>status = 200, response_headers = [''Content-Type'' \<mapsto> ''text/event-stream'']\<rparr>"

definition html_response :: AxiosResponse where
  "html_response = \<lparr>status = 200, response_headers = [''Content-Type'' \<mapsto> ''text/html'']\<rparr>"

definition node_response :: AxiosResponse where
  "node_response =
     \<lparr>status = 200, response_headers = [''content-type'' \<mapsto> ''text/event-stream'']\<rparr>"

section \<open>The line framer\<close>

text \<open>
  Modelled from the spec: \<open>getLines\<close> is imported from \<open>./parse\<close>, which is not among the
  sources. The definitions of this section follow the line framer of the spec (section
  4.2): bytes are decoded incrementally, a partial character at the end of a chunk is held
  back, the carry-over and the newly decoded text are scanned for the terminators CR LF, LF
  and CR, each line found is emitted with the flag \<open>False\<close>, the remainder is the new
  carry-over, and at the end of the stream a non-empty carry-over is emitted with the flag
  \<open>True\<close>. Text is a list of code points.
\<close>

type_synonym byte = "8 word"
type_synonym codepoints = "nat list"
type_synonym line = "codepoints \<times> bool"

definition LF :: nat where
  "LF = 10"

definition CR :: nat where
  "CR = 13"

definition replacement :: nat where
  "replacement = 65533"

text \<open>
  Modelled from the spec: the UTF-8 decoding of \<open>./parse\<close>. The spec only says that the
  bytes are UTF-8 and that a partial character is held back; the lead byte gives the
  length of a character (\<open>seq_len\<close>, 0 for a byte that cannot start one), the bytes that
  follow must be continuation bytes (\<open>is_cont\<close>).
\<close>

definition is_cont :: "byte \<Rightarrow> bool" where
  "is_cont b = (128 \<le> unat b \<and> unat b < 192)"

definition seq_len :: "byte \<Rightarrow> nat" where
  "seq_len b =
     (if unat b < 128 then 1
      else if 192 \<le> unat b \<and> unat b < 224 then 2
      else if 224 \<le> unat b \<and> unat b < 240 then 3
      else if 240 \<le> unat b \<and> unat b < 248 then 4
      else 0)"

definition codepoint :: "byte \<Rightarrow> byte list \<Rightarrow> nat" where
  "codepoint b ks =
     foldl (\<lambda>a k. a * 64 + unat k mod 64) (unat b mod 2 ^ (6 - length ks)) ks"

text \<open>
  Modelled from the spec: \<open>decode\<close> returns the text of the complete characters and the
  bytes held back. A character whose bytes have not all arrived, and whose bytes so far are
  well formed, is held back with everything after it (there is nothing after it). The spec
  does not say what an ill-formed sequence decodes to: here it is one replacement character
  U+FFFD, and the byte that breaks a sequence is decoded again as the start of the next
  character, so that a CR or LF byte is always a terminator. Overlong forms and surrogates
  are not checked.
\<close>

fun decode :: "byte list \<Rightarrow> codepoints \<times> byte list" where
  "decode [] = ([], [])"
| "decode (b # bs) =
     (if seq_len b = 0 then apfst ((#) replacement) (decode bs)
      else if seq_len b = 1 then apfst ((#) (unat b)) (decode bs)
      else
        (let ks = takeWhile is_cont (take (seq_len b - 1) bs) in
         if length ks = seq_len b - 1
         then apfst ((#) (codepoint b ks)) (decode (drop (seq_len b - 1) bs))
         else if length ks = length bs then ([], b # bs)
         else apfst ((#) replacement) (decode (drop (length ks) bs))))"

text \<open>
  Modelled from the spec: the scan for terminators, in the order CR LF, LF, CR.
  \<open>split_lines final acc t\<close> returns the lines found in \<open>t\<close> and the remainder (\<open>acc\<close> is the
  line being read). The spec requires that CR LF is never split into two lines and that a
  lone CR terminates a line: so a CR that is the last character of the text that has arrived
  stays in the remainder until the next character is known, and is a terminator when the
  stream has ended (\<open>final\<close>).
\<close>

fun split_lines :: "bool \<Rightarrow> codepoints \<Rightarrow> codepoints \<Rightarrow> codepoints list \<times> codepoints" where
  "split_lines final acc [] = ([], acc)"
| "split_lines final acc [c] =
     (if c = LF \<or> (c = CR \<and> final) then ([acc], []) else ([], acc @ [c]))"
| "split_lines final acc (c # d # cs) =
     (if c = CR \<and> d = LF then apfst ((#) acc) (split_lines final [] cs)
      else if c = CR \<or> c = LF then apfst ((#) acc) (split_lines final [] (d # cs))
      else split_lines final (acc @ [c]) (d # cs))"

text \<open>
  Modelled from the spec: the state of the framer in a connection session, the bytes of a
  partial character and the carry-over, that is the decoded text after the last
  terminator.
\<close>

record framer =
  partial :: "byte list"
  carry :: codepoints

text \<open>
  Modelled from the spec: one chunk arrives. The lines found are emitted with the flag
  \<open>False\<close>.
\<close>

definition feed :: "framer \<Rightarrow> byte list \<Rightarrow> line list \<times> framer" where
  "feed f chunk =
     (let (new, held) = decode (partial f @ chunk);
          (ls, rest) = split_lines False [] (carry f @ new)
      in (map (\<lambda>l. (l, False)) ls, \<lparr>partial = held, carry = rest\<rparr>))"

text \<open>
  Modelled from the spec: the stream ends. A carry-over that is not empty is emitted as the
  final line, with the flag \<open>True\<close>; the bytes of a partial character are never completed
  and are dropped.
\<close>

definition finish :: "framer \<Rightarrow> line list" where
  "finish f =
     (let (ls, rest) = split_lines True [] (carry f)
      in map (\<lambda>l. (l, False)) ls @ (if rest = [] then [] else [(rest, True)]))"

text \<open>
  Modelled from the spec: the lines that the line sink receives when the byte reader hands
  over the chunks in order and then signals the end of the stream.
\<close>

fun run_lines :: "framer \<Rightarrow> byte list list \<Rightarrow> line list" where
  "run_lines f [] = finish f"
| "run_lines f (chunk # chunks) = (let (ls, f') = feed f chunk in ls @ run_lines f' chunks)"

definition getLines :: "byte list list \<Rightarrow> line list" where
  "getLines chunks = run_lines \<lparr>partial = [], carry = []\<rparr> chunks"

text \<open>
  The states that \<open>feed\<close> produces: the bytes held back decode to nothing, and the carry-over
  holds no terminator that the scan would act on.
\<close>

definition framer_inv :: "framer \<Rightarrow> bool" where
  "framer_inv f =
     (decode (partial f) = ([], partial f) \<and> split_lines False [] (carry f) = ([], carry f))"

definition is_eol :: "nat \<Rightarrow> bool" where
  "is_eol c = (c = CR \<or> c = LF)"

section \<open>Properties of the orchestrator\<close>

lemmas orch_defs = catch_def listener_def dispose_def resolve_def reject_def create_def
  id_sink_def retry_sink_def set_hdrs_def hdrs_def

lemmas example_defs = caller_store_def cfg_plain_def cfg_retrying_def cfg_giving_up_def
  cfg_reconnecting_def cfg_cancelling_def cfg_closing_def event_stream_response_def
  html_response_def node_response_def

lemmas eval_defs = run_def nodeEventSource_def orch_defs defaultOnOpen_def classify_def
  truthy_def startsWith_def EventStreamContentType_def DefaultRetryInterval_def
  LastEventId_def Let_def

subsection \<open>Runs, settled promises and quiet states\<close>

lemma run_Nil: "run cfg s [] = s"
  by (simp add: run_def)

lemma run_Cons: "run cfg s (e # es) = run cfg (step cfg s e) es"
  by (simp add: run_def)

lemma promise_settled_step:
  "promise s \<noteq> Pending \<Longrightarrow> promise (step cfg s e) = promise s"
  by (cases e) (auto simp: orch_defs Let_def split: option.splits prod.splits verdict.splits phase.splits)

lemma promise_settled_run:
  "promise s \<noteq> Pending \<Longrightarrow> promise (run cfg s es) = promise s"
  by (induction es arbitrary: s) (simp_all add: run_Nil run_Cons promise_settled_step)

lemma quiet_step:
  assumes "aborted s" "retryTimer s = None"
  shows "aborted (step cfg s e) \<and> retryTimer (step cfg s e) = None
       \<and> requests (step cfg s e) = requests s \<and> timers (step cfg s e) = timers s
       \<and> filter is_OnError (trace (step cfg s e)) = filter is_OnError (trace s)"
  using assms
  by (cases e) (auto simp: orch_defs Let_def split: option.splits prod.splits verdict.splits phase.splits)

lemma quiet_run:
  assumes "aborted s" "retryTimer s = None"
  shows "aborted (run cfg s es) \<and> retryTimer (run cfg s es) = None
       \<and> requests (run cfg s es) = requests s \<and> timers (run cfg s es) = timers s
       \<and> filter is_OnError (trace (run cfg s es)) = filter is_OnError (trace s)"
  using assms
proof (induction es arbitrary: s)
  case Nil
  then show ?case by (simp add: run_Nil)
next
  case (Cons e es)
  from quiet_step [OF Cons.prems, of cfg e] Cons.IH [of "step cfg s e"]
  show ?case by (simp add: run_Cons)
qed

lemma settled_inv_step:
  "onError cfg = None \<Longrightarrow> settled_inv s \<Longrightarrow> settled_inv (step cfg s e)"
  by (cases e) (auto simp: settled_inv_def orch_defs Let_def split: option.splits phase.splits promise.splits)

lemma settled_inv_init: "settled_inv (nodeEventSource cfg h)"
  by (simp add: settled_inv_def nodeEventSource_def create_def Let_def)

lemma settled_inv_run:
  "onError cfg = None \<Longrightarrow> settled_inv s \<Longrightarrow> settled_inv (run cfg s es)"
  by (induction es arbitrary: s) (simp_all add: run_Nil run_Cons settled_inv_step)

lemma rejected_inv_step: "rejected_inv s \<Longrightarrow> rejected_inv (step cfg s e)"
  by (cases e) (auto simp: rejected_inv_def orch_defs Let_def split: option.splits prod.splits verdict.splits phase.splits promise.splits)

lemma rejected_inv_init: "rejected_inv (nodeEventSource cfg h)"
  by (simp add: rejected_inv_def nodeEventSource_def create_def Let_def)

lemma rejected_inv_run: "rejected_inv s \<Longrightarrow> rejected_inv (run cfg s es)"
  by (induction es arbitrary: s) (simp_all add: run_Nil run_Cons rejected_inv_step)

lemma reachable_pending:
  assumes "onError cfg = None" "s = run cfg (nodeEventSource cfg h) es" "\<not> aborted s"
  shows "promise s = Pending"
  using settled_inv_run [OF assms(1) settled_inv_init, of cfg h es] assms(2,3)
  by (auto simp: settled_inv_def split: promise.splits)

lemma reachable_streaming:
  assumes "s = run cfg (nodeEventSource cfg h) es" "phase s = Streaming"
  shows "promise s = Pending \<or> promise s = Resolved"
  using rejected_inv_run [OF rejected_inv_init, of cfg cfg h es] assms
  by (auto simp: rejected_inv_def split: promise.splits)





subsection \<open>What a run does to the headers, the delay and the store\<close>

lemma hdrs_step: "\<not> is_IdSink e \<Longrightarrow> hdrs (step cfg s e) = hdrs s"
  by (cases e) (auto simp: orch_defs Let_def split: option.splits prod.splits verdict.splits phase.splits)

lemma requests_step:
  "requests (step cfg s e) = requests s \<or> requests (step cfg s e) = requests s @ [hdrs s]"
  by (cases e) (auto simp: orch_defs Let_def split: option.splits prod.splits verdict.splits phase.splits)

lemma requests_run:
  assumes "\<forall>e \<in> set es. \<not> is_IdSink e"
  shows "hdrs (run cfg s es) = hdrs s
       \<and> (\<exists>k. requests (run cfg s es) = requests s @ replicate k (hdrs s))"
  using assms
proof (induction es arbitrary: s)
  case Nil
  then show ?case by (simp add: run_Nil)
next
  case (Cons e es)
  then have e: "\<not> is_IdSink e" and es: "\<forall>e \<in> set es. \<not> is_IdSink e" by simp_all
  from Cons.IH [OF es, of "step cfg s e"] hdrs_step [OF e, of cfg s]
  obtain k where h: "hdrs (run cfg (step cfg s e) es) = hdrs s"
    and r: "requests (run cfg (step cfg s e) es) = requests (step cfg s e) @ replicate k (hdrs s)"
    by auto
  from requests_step [of cfg s e] show ?case
  proof
    assume "requests (step cfg s e) = requests s"
    with h r show ?thesis by (auto simp: run_Cons)
  next
    assume "requests (step cfg s e) = requests s @ [hdrs s]"
    with r have "requests (run cfg (step cfg s e) es) = requests s @ replicate (Suc k) (hdrs s)"
      by simp
    with h show ?thesis unfolding run_Cons by blast
  qed
qed

lemma new_requests:
  assumes "\<forall>e \<in> set es. \<not> is_IdSink e"
    and "m \<in> set (drop (length (requests s)) (requests (run cfg s es)))"
  shows "m = hdrs s"
proof -
  from requests_run [OF assms(1), of cfg s]
  obtain k where "requests (run cfg s es) = requests s @ replicate k (hdrs s)" by blast
  with assms(2) show ?thesis by simp
qed

lemma retryInterval_step: "\<not> is_RetrySink e \<Longrightarrow> retryInterval (step cfg s e) = retryInterval s"
  by (cases e) (auto simp: orch_defs Let_def split: option.splits prod.splits verdict.splits phase.splits)

lemma timers_step:
  "timers (step cfg s e) = timers s \<or> timers (step cfg s e) = timers s @ [retryInterval s]"
  by (cases e) (auto simp: orch_defs Let_def split: option.splits prod.splits verdict.splits phase.splits)

lemma retryTimer_step:
  "retryTimer (step cfg s e) = None \<or> retryTimer (step cfg s e) = retryTimer s
   \<or> retryTimer (step cfg s e) = Some (retryInterval s)"
  by (cases e) (auto simp: orch_defs Let_def split: option.splits prod.splits verdict.splits phase.splits)

lemma timers_run:
  assumes "\<forall>e \<in> set es. \<not> is_RetrySink e"
  shows "retryInterval (run cfg s es) = retryInterval s
       \<and> (\<exists>k. timers (run cfg s es) = timers s @ replicate k (retryInterval s))"
  using assms
proof (induction es arbitrary: s)
  case Nil
  then show ?case by (simp add: run_Nil)
next
  case (Cons e es)
  then have e: "\<not> is_RetrySink e" and es: "\<forall>e \<in> set es. \<not> is_RetrySink e" by simp_all
  from Cons.IH [OF es, of "step cfg s e"] retryInterval_step [OF e, of cfg s]
  obtain k where h: "retryInterval (run cfg (step cfg s e) es) = retryInterval s"
    and r: "timers (run cfg (step cfg s e) es) = timers (step cfg s e) @ replicate k (retryInterval s)"
    by auto
  from timers_step [of cfg s e] show ?case
  proof
    assume "timers (step cfg s e) = timers s"
    with h r show ?thesis by (auto simp: run_Cons)
  next
    assume "timers (step cfg s e) = timers s @ [retryInterval s]"
    with r have "timers (run cfg (step cfg s e) es) = timers s @ replicate (Suc k) (retryInterval s)"
      by simp
    with h show ?thesis unfolding run_Cons by blast
  qed
qed

lemma new_timers:
  assumes "\<forall>e \<in> set es. \<not> is_RetrySink e"
    and "d \<in> set (drop (length (timers s)) (timers (run cfg s es)))"
  shows "d = retryInterval s"
proof -
  from timers_run [OF assms(1), of cfg s]
  obtain k where "timers (run cfg s es) = timers s @ replicate k (retryInterval s)" by blast
  with assms(2) show ?thesis by simp
qed

lemma frame_step:
  "headers (step cfg s e) = headers s
   \<and> next_addr (heap (step cfg s e)) = next_addr (heap s)
   \<and> (\<forall>a. a \<noteq> headers s \<longrightarrow> objs (heap (step cfg s e)) a = objs (heap s) a)"
  by (cases e) (auto simp: orch_defs Let_def split: option.splits prod.splits verdict.splits phase.splits)

lemma frame_run:
  "headers (run cfg s es) = headers s
   \<and> (\<forall>a. a \<noteq> headers s \<longrightarrow> objs (heap (run cfg s es)) a = objs (heap s) a)"
proof (induction es arbitrary: s)
  case Nil
  then show ?case by (simp add: run_Nil)
next
  case (Cons e es)
  from frame_step [of cfg s e] Cons.IH [of "step cfg s e"]
  show ?case by (simp add: run_Cons)
qed

subsection \<open>Error policy\<close>

text \<open>
  Claim C1 says that after a fault on which \<open>onError\<close> returns a non-truthy verdict the
  promise rejects and no further attempt is scheduled. The catch block has no branch for
  that verdict: with a policy that returns \<open>false\<close> and a refused connection, the policy
  is called once, no timer is set, \<open>create\<close> has ended, and the promise is still pending;
  nothing but an abort of the caller's signal settles it afterwards.
\<close>

theorem non_truthy_verdict_leaves_promise_pending:
  "promise (run cfg_giving_up (nodeEventSource cfg_giving_up caller_store)
             [AxiosReject (AxiosError ''ECONNREFUSED'')]) = Pending
   \<and> retryTimer (run cfg_giving_up (nodeEventSource cfg_giving_up caller_store)
             [AxiosReject (AxiosError ''ECONNREFUSED'')]) = None
   \<and> phase (run cfg_giving_up (nodeEventSource cfg_giving_up caller_store)
             [AxiosReject (AxiosError ''ECONNREFUSED'')]) = Ended
   \<and> trace (run cfg_giving_up (nodeEventSource cfg_giving_up caller_store)
             [AxiosReject (AxiosError ''ECONNREFUSED'')])
       = [OnError (NodeEventSourceError Request (AxiosError ''ECONNREFUSED''))]
   \<and> promise (run cfg_giving_up (nodeEventSource cfg_giving_up caller_store)
             [AxiosReject (AxiosError ''ECONNREFUSED''), TimerFires,
              AxiosResponds event_stream_response, OnOpenSettled, StreamEnd]) = Pending
   \<and> requests (run cfg_giving_up (nodeEventSource cfg_giving_up caller_store)
             [AxiosReject (AxiosError ''ECONNREFUSED''), TimerFires,
              AxiosResponds event_stream_response, OnOpenSettled, StreamEnd])
       = [[''authorization'' \<mapsto> ''token'', ''accept'' \<mapsto> ''text/event-stream'']]"
  by (simp add: eval_defs example_defs)

subsection \<open>The id sink\<close>

text \<open>
  Claim C2 says that an id with a null character, delivered to the id sink, is never stored
  into the \<open>last-event-id\<close> header. The sink only tests the id for truthiness: after the id
  made of \<open>a\<close> and the null character, a stream fault and a retry, the second request
  carries that id.
\<close>

theorem null_id_is_sent_back:
  "map (\<lambda>m. m ''last-event-id'')
     (requests (run cfg_retrying (nodeEventSource cfg_retrying caller_store)
        [AxiosResponds event_stream_response, OnOpenSettled,
         IdSink (Some [CHR ''a'', CHR 0x00]),
         StreamFault (PlainError ''reset''), TimerFires]))
   = [None, Some [CHR ''a'', CHR 0x00]]
   \<and> CHR 0x00 \<in> set [CHR ''a'', CHR 0x00]"
  by (simp add: eval_defs example_defs)

text \<open>
  Claim C2 as amended: an id that contains a null character and is delivered to the id sink
  is stored as it is into the \<open>last-event-id\<close> header, and every request issued afterwards
  carries it, until the sink is called again; the sink does not filter it.
\<close>

theorem id_sink_keeps_null_id:
  assumes "CHR 0x00 \<in> set i" and "\<forall>e \<in> set es. \<not> is_IdSink e"
  shows "hdrs (id_sink (Some i) s) LastEventId = Some i
       \<and> (\<forall>m \<in> set (drop (length (requests s)) (requests (run cfg (id_sink (Some i) s) es))).
             m LastEventId = Some i)"
proof -
  from assms(1) have "i \<noteq> []" by auto
  then have stored: "hdrs (id_sink (Some i) s) LastEventId = Some i"
    and same: "requests (id_sink (Some i) s) = requests s"
    by (simp_all add: orch_defs truthy_def)
  have "\<forall>m \<in> set (drop (length (requests s)) (requests (run cfg (id_sink (Some i) s) es))).
          m = hdrs (id_sink (Some i) s)"
    using new_requests [OF assms(2), of _ "id_sink (Some i) s" cfg] same by auto
  with stored show ?thesis by auto
qed

theorem id_sink_keeps_null_id_witness:
  "CHR 0x00 \<in> set [CHR ''a'', CHR 0x00]
   \<and> filter is_IdSink [StreamFault (PlainError ''reset''), TimerFires] = []
   \<and> hdrs (id_sink (Some [CHR ''a'', CHR 0x00])
             (run cfg_plain (nodeEventSource cfg_plain caller_store)
                [AxiosResponds event_stream_response, OnOpenSettled])) LastEventId
       = Some [CHR ''a'', CHR 0x00]"
proof -
  have n: "CHR 0x00 \<in> set [CHR ''a'', CHR 0x00]" by simp
  have e: "\<forall>e \<in> set [StreamFault (PlainError ''reset''), TimerFires]. \<not> is_IdSink e" by simp
  from id_sink_keeps_null_id [OF n e, of _ cfg_plain] n show ?thesis by simp
qed

subsection \<open>Open validation\<close>

text \<open>
  What the default validation decides: it reads the property \<open>Content-Type\<close> of the
  header object, in this spelling, and matches by \<open>startsWith\<close>. A value that starts with
  \<open>text/event-stream\<close> leaves \<open>create\<close> at the await of the hook and then starts the
  streaming; any other value, and an absent property, runs the catch block with the error
  \<open>Expected content-type to be text/event-stream, Actual: ...\<close>.
\<close>

lemma default_open_validation:
  assumes "onOpen cfg = None" and "phase s = Connecting"
  shows "step cfg s (AxiosResponds r) =
     (if \<exists>rest. response_headers r ''Content-Type'' = Some (''text/event-stream'' @ rest)
      then s\<lparr>phase := Opening None\<rparr>
      else catch cfg
             (PlainError (''Expected content-type to be text/event-stream, Actual: ''
                @ (case response_headers r ''Content-Type'' of
                     None \<Rightarrow> ''undefined'' | Some c \<Rightarrow> c))) s)
   \<and> step cfg (s\<lparr>phase := Opening None\<rparr>) OnOpenSettled = s\<lparr>phase := Streaming\<rparr>"
proof -
  have m: "startsWith c EventStreamContentType \<longleftrightarrow> (\<exists>rest. c = ''text/event-stream'' @ rest)" for c
  proof
    assume "startsWith c EventStreamContentType"
    then have "c = ''text/event-stream'' @ drop (length ''text/event-stream'') c"
      unfolding startsWith_def EventStreamContentType_def
      by (metis append_take_drop_id)
    then show "\<exists>rest. c = ''text/event-stream'' @ rest" ..
  next
    assume "\<exists>rest. c = ''text/event-stream'' @ rest"
    then show "startsWith c EventStreamContentType"
      by (auto simp: startsWith_def EventStreamContentType_def)
  qed
  show ?thesis
    using assms
    by (cases "response_headers r ''Content-Type''")
       (simp_all add: defaultOnOpen_def m, simp_all add: EventStreamContentType_def)
qed

text \<open>
  Claim C3 says that without a custom \<open>onOpen\<close> every response whose declared content
  type is \<open>text/event-stream\<close> passes the validation. The header object of a response
  has the names of the headers in lower case, as Node delivers them and axios keeps them:
  a response that declares \<open>content-type: text/event-stream\<close> has no property
  \<open>Content-Type\<close>, the validation reads \<open>undefined\<close> and throws, and without a policy of
  the caller the operation is rejected with that error.
\<close>

theorem default_validation_refuses_event_stream:
  "response_headers node_response ''content-type'' = Some ''text/event-stream''
   \<and> defaultOnOpen node_response
       = Some (PlainError ''Expected content-type to be text/event-stream, Actual: undefined'')
   \<and> promise (run cfg_plain (nodeEventSource cfg_plain caller_store)
        [AxiosResponds node_response])
       = Rejected (NodeEventSourceError Other
           (PlainError ''Expected content-type to be text/event-stream, Actual: undefined''))
   \<and> phase (run cfg_plain (nodeEventSource cfg_plain caller_store)
        [AxiosResponds node_response]) = Ended"
  by (simp add: eval_defs example_defs)

subsection \<open>No error policy\<close>

text \<open>
  Claim C4 says that without an error policy of the caller every fault on an attempt makes
  the operation reject with that fault. The promise is rejected with the
  \<open>NodeEventSourceError\<close> object that the catch block builds around the fault, which
  \<open>defaultOnError\<close> throws, not with the fault; and the guard of the catch block drops a
  fault that arrives after the controller was aborted: after the caller's cancellation the
  fault of the cancelled stream leaves the promise resolved.
\<close>

theorem fault_is_wrapped_or_dropped:
  "promise (run cfg_plain (nodeEventSource cfg_plain caller_store)
      [AxiosReject (AxiosError ''ECONNREFUSED'')])
     = Rejected (NodeEventSourceError Request (AxiosError ''ECONNREFUSED''))
   \<and> promise (run cfg_plain (nodeEventSource cfg_plain caller_store)
      [AxiosReject (AxiosError ''ECONNREFUSED'')]) \<noteq> Rejected (AxiosError ''ECONNREFUSED'')
   \<and> fault_of cfg_plain
        (run cfg_plain (nodeEventSource cfg_plain caller_store)
           [AxiosResponds event_stream_response, OnOpenSettled, Abort])
        (StreamFault (AxiosError ''canceled'')) = Some (AxiosError ''canceled'')
   \<and> promise (run cfg_plain (nodeEventSource cfg_plain caller_store)
      [AxiosResponds event_stream_response, OnOpenSettled, Abort,
       StreamFault (AxiosError ''canceled'')]) = Resolved"
  by (simp add: eval_defs example_defs)

text \<open>
  Claim C4 as amended: without an error policy of the caller, every fault on an attempt
  whose controller is not aborted makes the operation reject with the
  \<open>NodeEventSourceError\<close> of that fault (its \<open>origin\<close> is the fault, its \<open>type\<close> is
  \<open>Request\<close> for an \<open>AxiosError\<close> and \<open>Other\<close> otherwise), and no retry is scheduled. The
  fault is any value that reaches the catch block (\<open>fault_of\<close>). Whatever happens later
  (\<open>es'\<close>), the promise stays rejected, no request is issued and no timer is set.
\<close>

theorem default_policy_rejects:
  assumes "onError cfg = None"
    and "s = run cfg (nodeEventSource cfg h) es"
    and "\<not> aborted s"
    and "fault_of cfg s e = Some err"
  shows "promise (step cfg s e)
           = Rejected (NodeEventSourceError (case err of AxiosError x \<Rightarrow> Request | _ \<Rightarrow> Other) err)
       \<and> retryTimer (step cfg s e) = None
       \<and> requests (step cfg s e) = requests s
       \<and> timers (step cfg s e) = timers s
       \<and> promise (run cfg (step cfg s e) es')
           = Rejected (NodeEventSourceError (case err of AxiosError x \<Rightarrow> Request | _ \<Rightarrow> Other) err)
       \<and> requests (run cfg (step cfg s e) es') = requests s
       \<and> timers (run cfg (step cfg s e) es') = timers s"
proof -
  let ?v = "NodeEventSourceError (case err of AxiosError x \<Rightarrow> Request | _ \<Rightarrow> Other) err"
  have pending: "promise s = Pending"
    using reachable_pending [OF assms(1,2,3)] .
  have now: "promise (step cfg s e) = Rejected ?v \<and> retryTimer (step cfg s e) = None
      \<and> aborted (step cfg s e)
      \<and> requests (step cfg s e) = requests s \<and> timers (step cfg s e) = timers s"
    using assms(1,3,4) pending
    by (cases e)
       (auto simp: orch_defs classify_def Let_def split: option.splits phase.splits if_splits)
  then have later: "requests (run cfg (step cfg s e) es') = requests (step cfg s e)
      \<and> timers (run cfg (step cfg s e) es') = timers (step cfg s e)"
    using quiet_run [of "step cfg s e" cfg es'] by simp
  from now have "promise (run cfg (step cfg s e) es') = Rejected ?v"
    using promise_settled_run [of "step cfg s e" cfg es'] by simp
  with now later show ?thesis by simp
qed

theorem default_policy_rejects_witness:
  "onError cfg_plain = None
   \<and> \<not> aborted (run cfg_plain (nodeEventSource cfg_plain caller_store) [])
   \<and> fault_of cfg_plain (run cfg_plain (nodeEventSource cfg_plain caller_store) [])
        (AxiosReject (AxiosError ''ECONNREFUSED'')) = Some (AxiosError ''ECONNREFUSED'')
   \<and> promise (run cfg_plain
        (step cfg_plain (run cfg_plain (nodeEventSource cfg_plain caller_store) [])
           (AxiosReject (AxiosError ''ECONNREFUSED''))) [TimerFires])
       = Rejected (NodeEventSourceError Request (AxiosError ''ECONNREFUSED''))
   \<and> length (requests (run cfg_plain
        (step cfg_plain (run cfg_plain (nodeEventSource cfg_plain caller_store) [])
           (AxiosReject (AxiosError ''ECONNREFUSED''))) [TimerFires])) = 1"
proof -
  let ?s = "run cfg_plain (nodeEventSource cfg_plain caller_store) []"
  have a: "onError cfg_plain = None" by (simp add: example_defs)
  have b: "\<not> aborted ?s" by (simp add: eval_defs example_defs)
  have c: "fault_of cfg_plain ?s (AxiosReject (AxiosError ''ECONNREFUSED''))
             = Some (AxiosError ''ECONNREFUSED'')"
    by (simp add: eval_defs example_defs)
  have d: "length (requests ?s) = 1" by (simp add: eval_defs example_defs)
  from default_policy_rejects [OF a refl b c, of "[TimerFires]"] a b c d
  show ?thesis by simp
qed

subsection \<open>External cancellation\<close>




subsection \<open>Clean close\<close>

text \<open>
  Claim C7 says that on every attempt whose byte stream ends naturally the close hook is
  called, the operation then resolves, and no retry is scheduled. The hook is called inside
  the try block: what it throws goes to the catch block as any other fault. With a close
  hook that throws and a policy that retries, the stream ends, both hooks are called, the
  promise is still pending, a timer is set with the delay 1000, and a second request follows.
\<close>

theorem throwing_close_hook_retries:
  "promise (run cfg_reconnecting (nodeEventSource cfg_reconnecting caller_store)
      [AxiosResponds event_stream_response, OnOpenSettled, StreamEnd]) = Pending
   \<and> retryTimer (run cfg_reconnecting (nodeEventSource cfg_reconnecting caller_store)
      [AxiosResponds event_stream_response, OnOpenSettled, StreamEnd]) = Some 1000
   \<and> trace (run cfg_reconnecting (nodeEventSource cfg_reconnecting caller_store)
      [AxiosResponds event_stream_response, OnOpenSettled, StreamEnd])
       = [OnClose, OnError (NodeEventSourceError Other (PlainError ''closed''))]
   \<and> length (requests (run cfg_reconnecting (nodeEventSource cfg_reconnecting caller_store)
      [AxiosResponds event_stream_response, OnOpenSettled, StreamEnd, TimerFires])) = 2"
  by (simp add: eval_defs example_defs)

text \<open>
  Claim C7 as amended: when the byte stream of an attempt ends naturally and the close hook,
  if the caller gave one, returns normally, the hook is called, then the promise is
  resolved, and no retry is scheduled then or later (\<open>es'\<close>).
\<close>

theorem clean_close_resolves:
  assumes "s = run cfg (nodeEventSource cfg h) es"
    and "phase s = Streaming"
    and "case onClose cfg of None \<Rightarrow> True | Some hook \<Rightarrow> hook (trace s) = None"
  shows "trace (step cfg s StreamEnd)
           = trace s @ (case onClose cfg of None \<Rightarrow> [] | Some hook \<Rightarrow> [OnClose])
       \<and> promise (step cfg s StreamEnd) = Resolved
       \<and> retryTimer (step cfg s StreamEnd) = None
       \<and> requests (step cfg s StreamEnd) = requests s
       \<and> timers (step cfg s StreamEnd) = timers s
       \<and> promise (run cfg (step cfg s StreamEnd) es') = Resolved
       \<and> requests (run cfg (step cfg s StreamEnd) es') = requests s
       \<and> timers (run cfg (step cfg s StreamEnd) es') = timers s"
proof -
  have p: "promise s = Pending \<or> promise s = Resolved"
    using reachable_streaming [OF assms(1,2)] .
  have now: "trace (step cfg s StreamEnd)
           = trace s @ (case onClose cfg of None \<Rightarrow> [] | Some hook \<Rightarrow> [OnClose])
       \<and> promise (step cfg s StreamEnd) = Resolved
       \<and> retryTimer (step cfg s StreamEnd) = None \<and> aborted (step cfg s StreamEnd)
       \<and> requests (step cfg s StreamEnd) = requests s
       \<and> timers (step cfg s StreamEnd) = timers s"
    using assms(2,3) p
    by (auto simp: dispose_def resolve_def Let_def split: option.splits)
  then have "promise (run cfg (step cfg s StreamEnd) es') = Resolved"
    using promise_settled_run [of "step cfg s StreamEnd" cfg es'] by simp
  moreover from now have "requests (run cfg (step cfg s StreamEnd) es') = requests s
      \<and> timers (run cfg (step cfg s StreamEnd) es') = timers s"
    using quiet_run [of "step cfg s StreamEnd" cfg es'] by simp
  ultimately show ?thesis using now by simp
qed

theorem clean_close_resolves_witness:
  "phase (run cfg_retrying (nodeEventSource cfg_retrying caller_store)
        [AxiosResponds event_stream_response, OnOpenSettled]) = Streaming
   \<and> (case onClose cfg_retrying of None \<Rightarrow> True
       | Some hook \<Rightarrow> hook (trace (run cfg_retrying (nodeEventSource cfg_retrying caller_store)
            [AxiosResponds event_stream_response, OnOpenSettled])) = None)
   \<and> trace (step cfg_retrying (run cfg_retrying (nodeEventSource cfg_retrying caller_store)
        [AxiosResponds event_stream_response, OnOpenSettled]) StreamEnd) = [OnClose]
   \<and> promise (run cfg_retrying
        (step cfg_retrying (run cfg_retrying (nodeEventSource cfg_retrying caller_store)
           [AxiosResponds event_stream_response, OnOpenSettled]) StreamEnd)
        [TimerFires]) = Resolved"
proof -
  let ?s = "run cfg_retrying (nodeEventSource cfg_retrying caller_store)
              [AxiosResponds event_stream_response, OnOpenSettled]"
  have a: "phase ?s = Streaming" by (simp add: eval_defs example_defs)
  have b: "case onClose cfg_retrying of None \<Rightarrow> True | Some hook \<Rightarrow> hook (trace ?s) = None"
    by (simp add: example_defs)
  have c: "trace ?s = []" by (simp add: eval_defs example_defs)
  have d: "onClose cfg_retrying \<noteq> None" by (simp add: example_defs)
  from clean_close_resolves [OF refl a b, of "[TimerFires]"] a b c d
  show ?thesis by auto
qed

subsection \<open>The last-event-id header\<close>

text \<open>
  Claim C8: after the id sink receives a non-empty id, the header object has
  \<open>last-event-id\<close> with that id, and so has every request issued afterwards, until the sink
  is called again; after it receives an empty or undefined id, the header is absent from
  the header object and from those requests.
\<close>

theorem last_event_id_header:
  assumes "\<forall>e \<in> set es. \<not> is_IdSink e"
  shows "(i \<noteq> [] \<longrightarrow>
            hdrs (id_sink (Some i) s) LastEventId = Some i
          \<and> (\<forall>m \<in> set (drop (length (requests s))
                           (requests (run cfg (id_sink (Some i) s) es))).
                m LastEventId = Some i))
       \<and> (j = None \<or> j = Some [] \<longrightarrow>
            hdrs (id_sink j s) LastEventId = None
          \<and> (\<forall>m \<in> set (drop (length (requests s)) (requests (run cfg (id_sink j s) es))).
                m LastEventId = None))"
proof -
  have later: "\<forall>m \<in> set (drop (length (requests s)) (requests (run cfg (id_sink k s) es))).
                 m = hdrs (id_sink k s)" for k
  proof
    fix m
    assume "m \<in> set (drop (length (requests s)) (requests (run cfg (id_sink k s) es)))"
    moreover have "requests (id_sink k s) = requests s"
      by (simp add: orch_defs)
    ultimately show "m = hdrs (id_sink k s)"
      using new_requests [OF assms, of m "id_sink k s" cfg] by simp
  qed
  have set_id: "i \<noteq> [] \<longrightarrow> hdrs (id_sink (Some i) s) LastEventId = Some i"
    by (simp add: orch_defs truthy_def)
  have del_id: "j = None \<or> j = Some [] \<longrightarrow> hdrs (id_sink j s) LastEventId = None"
    by (auto simp: orch_defs truthy_def)
  from later [of "Some i"] later [of j] set_id del_id show ?thesis
    by auto
qed

theorem last_event_id_header_witness:
  "filter is_IdSink [StreamFault (PlainError ''reset''), TimerFires] = []
   \<and> ''7'' \<noteq> []
   \<and> map (\<lambda>m. m LastEventId)
       (requests (run cfg_retrying
          (id_sink (Some ''7'')
             (run cfg_retrying (nodeEventSource cfg_retrying caller_store)
                [AxiosResponds event_stream_response, OnOpenSettled, IdSink (Some ''5'')]))
          [StreamFault (PlainError ''reset''), TimerFires])) = [None, Some ''7'']
   \<and> map (\<lambda>m. m LastEventId)
       (requests (run cfg_retrying
          (id_sink (Some [])
             (run cfg_retrying (nodeEventSource cfg_retrying caller_store)
                [AxiosResponds event_stream_response, OnOpenSettled, IdSink (Some ''5'')]))
          [StreamFault (PlainError ''reset''), TimerFires])) = [None, None]"
proof -
  let ?s = "run cfg_retrying (nodeEventSource cfg_retrying caller_store)
              [AxiosResponds event_stream_response, OnOpenSettled, IdSink (Some ''5'')]"
  let ?es = "[StreamFault (PlainError ''reset''), TimerFires]"
  have b: "\<forall>e \<in> set ?es. \<not> is_IdSink e" by simp
  have r: "requests ?s = [[''authorization'' \<mapsto> ''token'', ''accept'' \<mapsto> ''text/event-stream'']]"
    by (simp add: eval_defs example_defs)
  have l1: "length (requests (run cfg_retrying (id_sink (Some ''7'') ?s) ?es)) = 2"
    by (simp add: eval_defs example_defs)
  have l2: "length (requests (run cfg_retrying (id_sink (Some []) ?s) ?es)) = 2"
    by (simp add: eval_defs example_defs)
  have h1: "take 1 (requests (run cfg_retrying (id_sink (Some ''7'') ?s) ?es)) = requests ?s"
    by (simp add: eval_defs example_defs)
  have h2: "take 1 (requests (run cfg_retrying (id_sink (Some []) ?s) ?es)) = requests ?s"
    by (simp add: eval_defs example_defs)
  note t = last_event_id_header [OF b, of "''7''" ?s cfg_retrying "Some []"]
  have n: "''7'' \<noteq> []" by simp
  from t n have
    p1: "\<forall>m \<in> set (drop (length (requests ?s))
            (requests (run cfg_retrying (id_sink (Some ''7'') ?s) ?es))).
           m LastEventId = Some ''7''"
    and p2: "\<forall>m \<in> set (drop (length (requests ?s))
            (requests (run cfg_retrying (id_sink (Some []) ?s) ?es))).
           m LastEventId = None"
    by simp_all
  have split: "length xs = 2 \<Longrightarrow> take 1 xs = [x] \<Longrightarrow> \<forall>m \<in> set (drop 1 xs). f m = v
      \<Longrightarrow> map f xs = [f x, v]" for xs :: "header_map list" and x f and v :: "string option"
    by (cases xs; cases "tl xs") auto
  from split [OF l1 _ , of _ "\<lambda>m. m LastEventId" "Some ''7''"] h1 r p1
  have m1: "map (\<lambda>m. m LastEventId)
       (requests (run cfg_retrying (id_sink (Some ''7'') ?s) ?es))
      = [None, Some ''7'']"
    by (simp add: LastEventId_def)
  from split [OF l2 _ , of _ "\<lambda>m. m LastEventId" "None"] h2 r p2
  have m2: "map (\<lambda>m. m LastEventId)
       (requests (run cfg_retrying (id_sink (Some []) ?s) ?es))
      = [None, None]"
    by (simp add: LastEventId_def)
  from b n m1 m2 show ?thesis by simp
qed

subsection \<open>The retry delay\<close>

text \<open>
  Claim C9: the retry delay starts at the configured \<open>retryInterval\<close>, or at 1000 when none
  is configured; a step sets a timer only with the delay of the state it starts from, which
  is then the delay of the pending timer; every timer set during a run without a call of the
  retry sink has the delay of the state the run starts from; and a value received by the
  retry sink becomes the delay of every timer set afterwards.
\<close>

theorem retry_delay_used:
  assumes "\<forall>e \<in> set es. \<not> is_RetrySink e"
  shows "retryInterval (nodeEventSource cfg h)
           = (case cfg_retryInterval cfg of None \<Rightarrow> 1000 | Some n \<Rightarrow> n)
       \<and> (timers (step cfg s e) = timers s
            \<or> timers (step cfg s e) = timers s @ [retryInterval s])
       \<and> (retryTimer (step cfg s e) = None \<or> retryTimer (step cfg s e) = retryTimer s
            \<or> retryTimer (step cfg s e) = Some (retryInterval s))
       \<and> (\<forall>d \<in> set (drop (length (timers s)) (timers (run cfg s es))). d = retryInterval s)
       \<and> retryInterval (retry_sink v s) = v
       \<and> (\<forall>d \<in> set (drop (length (timers s)) (timers (run cfg (retry_sink v s) es))). d = v)"
proof -
  have init: "retryInterval (nodeEventSource cfg h)
           = (case cfg_retryInterval cfg of None \<Rightarrow> 1000 | Some n \<Rightarrow> n)"
    by (simp add: nodeEventSource_def create_def Let_def DefaultRetryInterval_def
          split: option.splits)
  have plain: "\<forall>d \<in> set (drop (length (timers s)) (timers (run cfg s es))). d = retryInterval s"
    using new_timers [OF assms, of _ s cfg] by blast
  have 1: "retryInterval (retry_sink v s) = v"
    and 2: "timers (retry_sink v s) = timers s"
    by (simp_all add: retry_sink_def)
  from new_timers [OF assms, of _ "retry_sink v s" cfg] 1 2
  have sink: "\<forall>d \<in> set (drop (length (timers s)) (timers (run cfg (retry_sink v s) es))). d = v"
    by auto
  from init plain 1 sink timers_step [of cfg s e] retryTimer_step [of cfg s e]
  show ?thesis by (simp del: step.simps)
qed

theorem retry_delay_used_witness:
  "filter is_RetrySink [StreamFault (PlainError ''reset''), TimerFires,
                        AxiosReject (AxiosError ''ECONNREFUSED'')] = []
   \<and> retryInterval (nodeEventSource cfg_retrying caller_store) = 1000
   \<and> timers (run cfg_retrying (nodeEventSource cfg_retrying caller_store)
        [AxiosResponds event_stream_response, OnOpenSettled,
         StreamFault (PlainError ''reset''), TimerFires,
         AxiosReject (AxiosError ''ECONNREFUSED'')]) = [1000, 1000]
   \<and> timers (run cfg_retrying (nodeEventSource cfg_retrying caller_store)
        [AxiosResponds event_stream_response, OnOpenSettled, RetrySink 3000,
         StreamFault (PlainError ''reset''), TimerFires,
         AxiosReject (AxiosError ''ECONNREFUSED'')]) = [3000, 3000]"
proof -
  let ?s = "run cfg_retrying (nodeEventSource cfg_retrying caller_store)
              [AxiosResponds event_stream_response, OnOpenSettled]"
  let ?es = "[StreamFault (PlainError ''reset''), TimerFires,
              AxiosReject (AxiosError ''ECONNREFUSED'')]"
  have a: "\<forall>e \<in> set ?es. \<not> is_RetrySink e" by simp
  have b: "step cfg_retrying ?s (RetrySink 3000) = retry_sink 3000 ?s"
    by (simp add: eval_defs example_defs)
  have c: "cfg_retryInterval cfg_retrying = None" by (simp add: example_defs)
  have t0: "timers ?s = []" and r0: "retryInterval ?s = 1000"
    by (simp_all add: eval_defs example_defs)
  have l1: "length (timers (run cfg_retrying ?s ?es)) = 2"
    by (simp add: eval_defs example_defs)
  have l2: "length (timers (run cfg_retrying (retry_sink 3000 ?s) ?es)) = 2"
    by (simp add: eval_defs example_defs)
  note t = retry_delay_used [OF a, of cfg_retrying caller_store ?s _ 3000]
  have two: "length xs = 2 \<Longrightarrow> \<forall>d \<in> set xs. d = v \<Longrightarrow> xs = [v, v]" for xs :: "int list" and v
    by (cases xs; cases "tl xs") auto
  from t t0 r0 have "\<forall>d \<in> set (timers (run cfg_retrying ?s ?es)). d = 1000" by simp
  from two [OF l1 this] have m1: "timers (run cfg_retrying ?s ?es) = [1000, 1000]" .
  from t t0 have "\<forall>d \<in> set (timers (run cfg_retrying (retry_sink 3000 ?s) ?es)). d = 3000"
    by simp
  from two [OF l2 this]
  have "timers (run cfg_retrying (retry_sink 3000 ?s) ?es) = [3000, 3000]" .
  with b have m2: "timers (run cfg_retrying (step cfg_retrying ?s (RetrySink 3000)) ?es)
      = [3000, 3000]"
    by simp
  from t c have i: "retryInterval (nodeEventSource cfg_retrying caller_store) = 1000" by simp
  from a i m1 m2 show ?thesis by (simp add: run_def)
qed

subsection \<open>The caller's headers\<close>

text \<open>
  Claim C10: the operation writes to no object that existed when \<open>nodeEventSource\<close> was
  called, in particular not to the caller's headers: the header object it works on is a new
  one, which starts as the copy of the caller's headers with \<open>accept\<close> defaulted to
  \<open>text/event-stream\<close> when the caller's \<open>accept\<close> is absent or empty.
\<close>

theorem caller_headers_not_mutated:
  assumes "a < next_addr h"
  shows "objs (heap (run cfg (nodeEventSource cfg h) es)) a = objs h a
       \<and> headers (run cfg (nodeEventSource cfg h) es) = next_addr h
       \<and> hdrs (nodeEventSource cfg h)
           = (case inputHeaders cfg of
                None \<Rightarrow> [''accept'' \<mapsto> ''text/event-stream'']
              | Some b \<Rightarrow>
                  (if objs h b ''accept'' = None \<or> objs h b ''accept'' = Some []
                   then (objs h b)(''accept'' \<mapsto> ''text/event-stream'') else objs h b))"
proof -
  have i: "headers (nodeEventSource cfg h) = next_addr h"
    and o: "objs (heap (nodeEventSource cfg h)) a = objs h a"
    using assms by (simp_all add: nodeEventSource_def create_def Let_def)
  from frame_run [of cfg "nodeEventSource cfg h" es] i o assms
  have "objs (heap (run cfg (nodeEventSource cfg h) es)) a = objs h a
       \<and> headers (run cfg (nodeEventSource cfg h) es) = next_addr h"
    by auto
  moreover have "hdrs (nodeEventSource cfg h)
           = (case inputHeaders cfg of
                None \<Rightarrow> [''accept'' \<mapsto> ''text/event-stream'']
              | Some b \<Rightarrow>
                  (if objs h b ''accept'' = None \<or> objs h b ''accept'' = Some []
                   then (objs h b)(''accept'' \<mapsto> ''text/event-stream'') else objs h b))"
    by (auto simp: nodeEventSource_def create_def hdrs_def Let_def truthy_def
          EventStreamContentType_def split: option.splits)
  ultimately show ?thesis by simp
qed

theorem caller_headers_not_mutated_witness:
  "(0::nat) < next_addr caller_store
   \<and> objs (heap (run cfg_retrying (nodeEventSource cfg_retrying caller_store)
        [AxiosResponds event_stream_response, OnOpenSettled, IdSink (Some ''5'')])) 0
       = [''authorization'' \<mapsto> ''token'']
   \<and> hdrs (run cfg_retrying (nodeEventSource cfg_retrying caller_store)
        [AxiosResponds event_stream_response, OnOpenSettled, IdSink (Some ''5'')])
       = [''authorization'' \<mapsto> ''token'', ''accept'' \<mapsto> ''text/event-stream'',
          ''last-event-id'' \<mapsto> ''5'']"
proof -
  have a: "(0::nat) < next_addr caller_store" by (simp add: example_defs)
  have o: "objs caller_store 0 = [''authorization'' \<mapsto> ''token'']" by (simp add: example_defs)
  have h: "hdrs (run cfg_retrying (nodeEventSource cfg_retrying caller_store)
        [AxiosResponds event_stream_response, OnOpenSettled, IdSink (Some ''5'')])
       = [''authorization'' \<mapsto> ''token'', ''accept'' \<mapsto> ''text/event-stream'',
          ''last-event-id'' \<mapsto> ''5'']"
    by (simp add: eval_defs example_defs)
  from caller_headers_not_mutated [OF a, of cfg_retrying
      "[AxiosResponds event_stream_response, OnOpenSettled, IdSink (Some ''5'')]"] a o h
  show ?thesis by simp
qed

section \<open>Properties of the line framer\<close>

subsection \<open>Decoding in two parts\<close>

lemma takeWhile_stops_early:
  "length (takeWhile P xs) < length xs \<Longrightarrow> takeWhile P (xs @ ys) = takeWhile P xs"
proof -
  assume "length (takeWhile P xs) < length xs"
  then have "\<exists>x \<in> set xs. \<not> P x"
    by (metis takeWhile_eq_all_conv less_irrefl)
  then show ?thesis by (auto simp: takeWhile_append1)
qed

lemma take_full_prefix:
  "length (takeWhile P (take k bs)) = k \<Longrightarrow> take k (bs @ cs) = take k bs"
proof -
  assume "length (takeWhile P (take k bs)) = k"
  moreover have "length (takeWhile P (take k bs)) \<le> length (take k bs)"
    by (rule length_takeWhile_le)
  ultimately have "k \<le> length bs" by simp
  then show ?thesis by simp
qed

lemma emit_then_compose:
  assumes "dl = (case dr of (t1, r1) \<Rightarrow> case g r1 of (t2, r2) \<Rightarrow> (t1 @ t2, r2))"
  shows "apfst ((#) v) dl =
     (case apfst ((#) v) dr of (t1, r1) \<Rightarrow> case g r1 of (t2, r2) \<Rightarrow> (t1 @ t2, r2))"
  using assms by (cases dr) (simp split: prod.splits)

lemma decode_append:
  "decode (a @ b) =
     (case decode a of (t1, r1) \<Rightarrow> case decode (r1 @ b) of (t2, r2) \<Rightarrow> (t1 @ t2, r2))"
proof (induction a rule: decode.induct)
  case 1
  show ?case by (simp split: prod.splits)
next
  case (2 x xs)
  let ?n = "seq_len x"
  let ?ks = "takeWhile is_cont (take (?n - 1) xs)"
  consider (invalid) "?n = 0" | (single) "?n \<noteq> 0" "?n = 1"
    | (complete) "?n \<noteq> 0" "?n \<noteq> 1" "length ?ks = ?n - 1"
    | (dangling) "?n \<noteq> 0" "?n \<noteq> 1" "length ?ks \<noteq> ?n - 1" "length ?ks = length xs"
    | (broken) "?n \<noteq> 0" "?n \<noteq> 1" "length ?ks \<noteq> ?n - 1" "length ?ks \<noteq> length xs"
    by blast
  then show ?case
  proof cases
    case invalid
    then have l: "decode ((x # xs) @ b) = apfst ((#) replacement) (decode (xs @ b))"
      and r: "decode (x # xs) = apfst ((#) replacement) (decode xs)"
      by simp_all
    from emit_then_compose [OF "2.IH"(1) [OF invalid]] show ?thesis
      unfolding l r .
  next
    case single
    then have l: "decode ((x # xs) @ b) = apfst ((#) (unat x)) (decode (xs @ b))"
      and r: "decode (x # xs) = apfst ((#) (unat x)) (decode xs)"
      by simp_all
    from emit_then_compose [OF "2.IH"(2) [OF single]] show ?thesis
      unfolding l r .
  next
    case complete
    from complete(3) have t: "take (?n - 1) (xs @ b) = take (?n - 1) xs"
      by (rule take_full_prefix)
    from complete(3) have "?n - 1 \<le> length xs"
      using length_takeWhile_le [of is_cont "take (?n - 1) xs"] by simp
    then have d: "drop (?n - 1) (xs @ b) = drop (?n - 1) xs @ b" by simp
    from complete
    have r: "decode (x # xs) = apfst ((#) (codepoint x ?ks)) (decode (drop (?n - 1) xs))"
      by (simp add: Let_def del: One_nat_def)
    from complete
    have l: "decode ((x # xs) @ b)
               = apfst ((#) (codepoint x ?ks)) (decode (drop (?n - 1) xs @ b))"
      by (simp add: Let_def t d del: take_append drop_append One_nat_def)
    from emit_then_compose [OF "2.IH"(3) [OF complete(1,2) refl complete(3)]] show ?thesis
      unfolding l r .
  next
    case dangling
    then have "decode (x # xs) = ([], x # xs)" by (simp add: Let_def)
    then show ?thesis by (simp split: prod.splits)
  next
    case broken
    have "length ?ks \<le> length (take (?n - 1) xs)" by (rule length_takeWhile_le)
    then have "length ?ks \<le> ?n - 1" and "length ?ks \<le> length xs" by simp_all
    with broken(3,4) have "length ?ks < ?n - 1" and short: "length ?ks < length xs"
      by linarith+
    then have lt: "length ?ks < length (take (?n - 1) xs)" by simp
    have "take (?n - 1) (xs @ b) = take (?n - 1) xs @ take (?n - 1 - length xs) b" by simp
    with takeWhile_stops_early [OF lt, of "take (?n - 1 - length xs) b"]
    have k: "takeWhile is_cont (take (?n - 1) (xs @ b)) = ?ks" by simp
    from short have d: "drop (length ?ks) (xs @ b) = drop (length ?ks) xs @ b" by simp
    from short have n: "length ?ks \<noteq> length (xs @ b)" by simp
    from broken
    have r: "decode (x # xs) = apfst ((#) replacement) (decode (drop (length ?ks) xs))"
      by (simp add: Let_def del: One_nat_def)
    have "decode (x # (xs @ b))
            = apfst ((#) replacement) (decode (drop (length ?ks) (xs @ b)))"
      using broken(1,2,3) n
      by (simp only: decode.simps Let_def k if_False refl)
    with d have l: "decode ((x # xs) @ b)
               = apfst ((#) replacement) (decode (drop (length ?ks) xs @ b))"
      by simp
    from emit_then_compose [OF "2.IH"(4) [OF broken(1,2) refl broken(3,4)]] show ?thesis
      unfolding l r .
  qed
qed

lemma decode_held:
  assumes "decode bs = (t, r)"
  shows "decode r = ([], r)"
proof -
  from decode_append [of bs "[]"] assms show ?thesis
    by (simp split: prod.splits)
qed

subsection \<open>Scanning in two parts\<close>

lemma split_lines_acc:
  "\<forall>c \<in> set acc. \<not> is_eol c \<Longrightarrow>
     split_lines final a (acc @ t) = split_lines final (a @ acc) t"
proof (induction acc arbitrary: a)
  case Nil
  show ?case by simp
next
  case (Cons c acc)
  then have c: "c \<noteq> CR" "c \<noteq> LF" and rest: "\<forall>c \<in> set acc. \<not> is_eol c"
    by (simp_all add: is_eol_def)
  show ?case
  proof (cases "acc @ t")
    case Nil
    with c show ?thesis by simp
  next
    case (Cons d ds)
    with c have "split_lines final a ((c # acc) @ t) = split_lines final (a @ [c]) (acc @ t)"
      by simp
    with Cons.IH [OF rest, of "a @ [c]"] show ?thesis by simp
  qed
qed

lemma split_lines_append:
  "\<forall>c \<in> set acc. \<not> is_eol c \<Longrightarrow>
     split_lines final acc (x @ y) =
       (case split_lines False acc x of (l1, c1) \<Rightarrow>
          case split_lines final [] (c1 @ y) of (l2, c2) \<Rightarrow> (l1 @ l2, c2))"
proof (induction False acc x rule: split_lines.induct)
  case (1 acc)
  from split_lines_acc [OF 1, of final "[]" y] show ?case
    by (simp split: prod.splits)
next
  case (2 acc c)
  show ?case
  proof (cases "c = LF")
    case True
    then show ?thesis by (cases y) (simp_all add: LF_def CR_def split: prod.splits)
  next
    case False
    have "split_lines final [] ((acc @ [c]) @ y) = split_lines final acc (c # y)"
      using split_lines_acc [OF 2, of final "[]" "c # y"] by simp
    with False show ?thesis by (simp split: prod.splits)
  qed
next
  case (3 acc c d cs)
  have nil: "\<forall>e \<in> set []. \<not> is_eol e" by simp
  consider (crlf) "c = CR \<and> d = LF"
    | (eol) "\<not> (c = CR \<and> d = LF)" "c = CR \<or> c = LF"
    | (plain) "\<not> (c = CR \<and> d = LF)" "\<not> (c = CR \<or> c = LF)"
    by blast
  then show ?case
  proof cases
    case crlf
    then have l: "split_lines final acc ((c # d # cs) @ y)
                    = apfst ((#) acc) (split_lines final [] (cs @ y))"
      and r: "split_lines False acc (c # d # cs) = apfst ((#) acc) (split_lines False [] cs)"
      by simp_all
    from emit_then_compose [OF "3.hyps"(1) [OF crlf nil]] show ?thesis
      unfolding l r .
  next
    case eol
    then have l: "split_lines final acc ((c # d # cs) @ y)
                    = apfst ((#) acc) (split_lines final [] ((d # cs) @ y))"
      and r: "split_lines False acc (c # d # cs)
                    = apfst ((#) acc) (split_lines False [] (d # cs))"
      by auto
    from emit_then_compose [OF "3.hyps"(2) [OF eol nil]] show ?thesis
      unfolding l r .
  next
    case plain
    with "3.prems" have ok: "\<forall>e \<in> set (acc @ [c]). \<not> is_eol e" by (simp add: is_eol_def)
    from plain have l: "split_lines final acc ((c # d # cs) @ y)
                    = split_lines final (acc @ [c]) ((d # cs) @ y)"
      and r: "split_lines False acc (c # d # cs) = split_lines False (acc @ [c]) (d # cs)"
      by auto
    from "3.hyps"(3) [OF plain ok] show ?thesis
      unfolding l r .
  qed
qed

lemma split_lines_carry:
  assumes "split_lines False [] t = (ls, rest)"
  shows "split_lines False [] rest = ([], rest)"
proof -
  from split_lines_append [of "[]" False t "[]"] assms show ?thesis
    by (simp split: prod.splits)
qed

lemma feed_append:
  "feed f (a @ b) =
     (case feed f a of (l1, f1) \<Rightarrow> case feed f1 b of (l2, f2) \<Rightarrow> (l1 @ l2, f2))"
proof -
  obtain t1 r1 where d1: "decode (partial f @ a) = (t1, r1)" by fastforce
  obtain t2 r2 where d2: "decode (r1 @ b) = (t2, r2)" by fastforce
  obtain l1 c1 where s1: "split_lines False [] (carry f @ t1) = (l1, c1)" by fastforce
  obtain l2 c2 where s2: "split_lines False [] (c1 @ t2) = (l2, c2)" by fastforce
  from decode_append [of "partial f @ a" b] d1 d2
  have d: "decode (partial f @ a @ b) = (t1 @ t2, r2)" by simp
  from split_lines_append [of "[]" False "carry f @ t1" t2] s1 s2
  have s: "split_lines False [] (carry f @ t1 @ t2) = (l1 @ l2, c2)" by simp
  from d1 d2 s1 s2 d s show ?thesis by (simp add: feed_def)
qed

lemma feed_inv: "framer_inv (snd (feed f chunk))"
proof -
  obtain t r where d: "decode (partial f @ chunk) = (t, r)" by fastforce
  obtain ls c where s: "split_lines False [] (carry f @ t) = (ls, c)" by fastforce
  from decode_held [OF d] split_lines_carry [OF s] d s show ?thesis
    by (simp add: feed_def framer_inv_def)
qed

lemma feed_Nil: "framer_inv f \<Longrightarrow> feed f [] = ([], f)"
  by (simp add: feed_def framer_inv_def)

lemma run_lines_concat:
  "framer_inv f \<Longrightarrow> run_lines f chunks = run_lines f [concat chunks]"
proof (induction chunks arbitrary: f)
  case Nil
  then show ?case by (simp add: feed_Nil)
next
  case (Cons c cs)
  obtain l1 f1 where f1: "feed f c = (l1, f1)" by fastforce
  obtain l2 f2 where f2: "feed f1 (concat cs) = (l2, f2)" by fastforce
  from feed_inv [of f c] f1 have "framer_inv f1" by simp
  from Cons.IH [OF this] f2 have "run_lines f1 cs = l2 @ finish f2" by simp
  with f1 have "run_lines f (c # cs) = l1 @ l2 @ finish f2" by simp
  moreover from feed_append [of f c "concat cs"] f1 f2
  have "run_lines f [concat (c # cs)] = (l1 @ l2) @ finish f2" by simp
  ultimately show ?case by simp
qed

subsection \<open>Independence of the chunking\<close>

text \<open>
  Claim C6: for every byte sequence and every two ways of cutting it into chunks, the line
  framer emits the same lines, in the same order and with the same end-of-stream flags,
  also when a multi-byte character or a CR LF pair is cut by a chunk boundary.
\<close>

theorem chunking_independent:
  assumes "concat chunks1 = concat chunks2"
  shows "getLines chunks1 = getLines chunks2"
proof -
  have i: "framer_inv \<lparr>partial = [], carry = []\<rparr>" by (simp add: framer_inv_def)
  from run_lines_concat [OF i, of chunks1] run_lines_concat [OF i, of chunks2] assms
  show ?thesis by (simp add: getLines_def)
qed

theorem chunking_independent_witness:
  "concat [[0x61, 0x0D], [0x0A, 0x62, 0xE2], [0x82, 0xAC]]
     = concat [[0x61, 0x0D, 0x0A, 0x62, 0xE2, 0x82, 0xAC :: byte]]
   \<and> getLines [[0x61, 0x0D], [0x0A, 0x62, 0xE2], [0x82, 0xAC]]
     = [([97], False), ([98, 8364], True)]
   \<and> getLines [[0x61, 0x0D, 0x0A, 0x62, 0xE2, 0x82, 0xAC]]
     = [([97], False), ([98, 8364], True)]"
proof -
  have c: "concat [[0x61, 0x0D], [0x0A, 0x62, 0xE2], [0x82, 0xAC]]
     = concat [[0x61, 0x0D, 0x0A, 0x62, 0xE2, 0x82, 0xAC :: byte]]"
    by simp
  have e: "getLines [[0x61, 0x0D, 0x0A, 0x62, 0xE2, 0x82, 0xAC]]
     = [([97], False), ([98, 8364], True)]"
    by code_simp
  from chunking_independent [OF c] e c show ?thesis by simp
qed

end
